theory Spec2Isabelle
  imports Complex_Main
begin

section \<open>Text preprocessing (\<open>clean_text\<close>)\<close>

text \<open>
  The function is the same, line for line, in \<^verbatim>\<open>src/backend/main.py\<close> (lines 132-140) and in
  \<^verbatim>\<open>src/model/train.py\<close> (lines 155-163):
  \<^verbatim>\<open>
  def clean_text(text: str) -> str:
      text = text.lower()
      text = re.sub(r"http\S+|www\S+|https\S+", "", text)
      text = re.sub(r"@\w+", "", text)
      text = re.sub(r"#\w+", "", text)
      text = re.sub(r"[^a-zA-Z\s]", "", text)
      text = re.sub(r"\s+", " ", text).strip()
      return text
  \<close>
  A Python string is modelled as a \<^typ>\<open>string\<close>, one \<^typ>\<open>char\<close> per code point, so the
  model covers the code points 0 to 255 (ASCII and Latin-1). The character classes below
  are the ones Python 3 uses for a \<^verbatim>\<open>str\<close> pattern on that range.
\<close>

definition is_space :: "char \<Rightarrow> bool" where
  \<comment> \<open>\<^verbatim>\<open>\s\<close> and \<^verbatim>\<open>str.isspace\<close>: tab, LF, VT, FF, CR, the separators 0x1C-0x1F, space,
      NEL (0x85) and the no-break space (0xA0).\<close>
  "is_space c =
     (let n = (of_char c :: nat)
      in (9 \<le> n \<and> n \<le> 13) \<or> (28 \<le> n \<and> n \<le> 32) \<or> n = 133 \<or> n = 160)"

definition is_upper_az :: "char \<Rightarrow> bool" where
  "is_upper_az c = (let n = (of_char c :: nat) in 65 \<le> n \<and> n \<le> 90)"

definition is_lower_az :: "char \<Rightarrow> bool" where
  "is_lower_az c = (let n = (of_char c :: nat) in 97 \<le> n \<and> n \<le> 122)"

definition is_alpha_az :: "char \<Rightarrow> bool" where
  \<comment> \<open>the class \<^verbatim>\<open>[a-zA-Z]\<close>\<close>
  "is_alpha_az c = (is_lower_az c \<or> is_upper_az c)"

definition is_word :: "char \<Rightarrow> bool" where
  \<comment> \<open>\<^verbatim>\<open>\w\<close>: the underscore and every alphanumeric character; beyond ASCII these are
      0xAA, 0xB2, 0xB3, 0xB5, 0xB9, 0xBA, 0xBC-0xBE and the letters 0xC0-0xFF except the
      signs 0xD7 and 0xF7.\<close>
  "is_word c =
     (let n = (of_char c :: nat)
      in (48 \<le> n \<and> n \<le> 57) \<or> (65 \<le> n \<and> n \<le> 90) \<or> n = 95 \<or> (97 \<le> n \<and> n \<le> 122)
         \<or> n = 170 \<or> n = 178 \<or> n = 179 \<or> n = 181 \<or> n = 185 \<or> n = 186
         \<or> (188 \<le> n \<and> n \<le> 190) \<or> (192 \<le> n \<and> n \<noteq> 215 \<and> n \<noteq> 247))"

definition lower_char :: "char \<Rightarrow> char" where
  \<comment> \<open>\<^verbatim>\<open>str.lower\<close> on one character: A-Z and the capital letters 0xC0-0xDE (except the
      multiplication sign 0xD7) move up by 32, everything else stays.\<close>
  "lower_char c =
     (let n = (of_char c :: nat)
      in if (65 \<le> n \<and> n \<le> 90) \<or> (192 \<le> n \<and> n \<le> 222 \<and> n \<noteq> 215)
         then char_of (n + 32) else c)"

definition lower :: "string \<Rightarrow> string" where
  "lower s = map lower_char s"

definition url_start :: "string \<Rightarrow> bool" where
  \<comment> \<open>whether \<^verbatim>\<open>http\S+|www\S+|https\S+\<close> matches at the start of the string: one of the
      three literals followed by at least one character that is not whitespace\<close>
  "url_start s =
     ((take 4 s = ''http'' \<and> 4 < length s \<and> \<not> is_space (s ! 4))
      \<or> (take 3 s = ''www'' \<and> 3 < length s \<and> \<not> is_space (s ! 3))
      \<or> (take 5 s = ''https'' \<and> 5 < length s \<and> \<not> is_space (s ! 5)))"

function sub_url :: "string \<Rightarrow> string" where
  \<comment> \<open>\<^verbatim>\<open>re.sub(r"http\S+|www\S+|https\S+", "", text)\<close>: scanning from the left, a match is
      deleted up to the next whitespace (the greedy \<^verbatim>\<open>\S+\<close>) and the scan goes on after it\<close>
  "sub_url [] = []"
| "sub_url (c # cs) =
     (if url_start (c # cs) then sub_url (dropWhile (\<lambda>d. \<not> is_space d) cs)
      else c # sub_url cs)"
  by pat_completeness auto
termination
  by (relation "measure length") (auto simp: length_dropWhile_le less_Suc_eq_le)

function sub_tag :: "char \<Rightarrow> string \<Rightarrow> string" where
  \<comment> \<open>\<^verbatim>\<open>re.sub(r"@\w+", "", text)\<close> and \<^verbatim>\<open>re.sub(r"#\w+", "", text)\<close>, for the sign \<open>t\<close>\<close>
  "sub_tag t [] = []"
| "sub_tag t (c # cs) =
     (if c = t \<and> cs \<noteq> [] \<and> is_word (hd cs) then sub_tag t (dropWhile is_word cs)
      else c # sub_tag t cs)"
  by pat_completeness auto
termination
  by (relation "measure (\<lambda>(t, s). length s)") (auto simp: length_dropWhile_le less_Suc_eq_le)

definition strip_non_alpha :: "string \<Rightarrow> string" where
  \<comment> \<open>\<^verbatim>\<open>re.sub(r"[^a-zA-Z\s]", "", text)\<close>\<close>
  "strip_non_alpha s = filter (\<lambda>c. is_alpha_az c \<or> is_space c) s"

function collapse_ws :: "string \<Rightarrow> string" where
  \<comment> \<open>\<^verbatim>\<open>re.sub(r"\s+", " ", text)\<close>: every maximal run of whitespace becomes one space\<close>
  "collapse_ws [] = []"
| "collapse_ws (c # cs) =
     (if is_space c then CHR '' '' # collapse_ws (dropWhile is_space cs)
      else c # collapse_ws cs)"
  by pat_completeness auto
termination
  by (relation "measure length") (auto simp: length_dropWhile_le less_Suc_eq_le)

definition strip :: "string \<Rightarrow> string" where
  \<comment> \<open>\<^verbatim>\<open>str.strip()\<close>: leading and trailing whitespace removed\<close>
  "strip s = rev (dropWhile is_space (rev (dropWhile is_space s)))"

definition clean_text :: "string \<Rightarrow> string" where
  "clean_text text =
     strip (collapse_ws (strip_non_alpha (sub_tag (CHR ''#'') (sub_tag (CHR ''@'')
       (sub_url (lower text))))))"

fun contains_url :: "string \<Rightarrow> bool" where
  \<comment> \<open>the URL pattern matches at some position of the string\<close>
  "contains_url [] = False"
| "contains_url (c # cs) = (url_start (c # cs) \<or> contains_url cs)"

fun single_spaced :: "string \<Rightarrow> bool" where
  \<comment> \<open>the only whitespace is the space character, and never two in a row\<close>
  "single_spaced [] = True"
| "single_spaced [c] = (\<not> is_space c \<or> c = CHR '' '')"
| "single_spaced (c # d # cs) =
     ((\<not> is_space c \<or> (c = CHR '' '' \<and> \<not> is_space d)) \<and> single_spaced (d # cs))"

section \<open>Numbers\<close>

text \<open>
  A Python \<^verbatim>\<open>float\<close> is modelled as the \<^typ>\<open>real\<close> it stands for, and
  \<^verbatim>\<open>round(x, n)\<close> is rounding to \<open>n\<close> decimals with a tie going to the even neighbour.
  NaN and the infinities are outside the model (a tf-idf weight, a coefficient and a
  probability are finite).
\<close>

definition round_half_even :: "real \<Rightarrow> int" where
  "round_half_even x =
     (let f = \<lfloor>x\<rfloor>; d = x - of_int f
      in if d < 1 / 2 then f else if 1 / 2 < d then f + 1 else if even f then f else f + 1)"

definition py_round :: "real \<Rightarrow> nat \<Rightarrow> real" where
  \<comment> \<open>\<^verbatim>\<open>round(x, ndigits)\<close>\<close>
  "py_round x ndigits = of_int (round_half_even (x * 10 ^ ndigits)) / 10 ^ ndigits"

text \<open>
  The result of a float operation is the exact result rounded to a double, so it is not
  the exact result. Where the code computes a key-word score and the average confidence,
  the operations of float arithmetic are taken as they are, as parameters: subtraction,
  multiplication and division of two floats, and the builtin \<^verbatim>\<open>sum\<close> of a list of floats.
  Nothing is assumed of them.
\<close>

record float_ops =
  fsub :: "real \<Rightarrow> real \<Rightarrow> real"
  fmul :: "real \<Rightarrow> real \<Rightarrow> real"
  fdiv :: "real \<Rightarrow> real \<Rightarrow> real"
  fsum :: "real list \<Rightarrow> real"

section \<open>Data of the prediction service\<close>

text \<open>The pydantic schemas \<^verbatim>\<open>WordScore\<close> and \<^verbatim>\<open>PredictResponse\<close> (main.py, lines 80-94).\<close>

record word_score =
  ws_word :: string
  ws_score :: real
  ws_type :: string

record predict_response =
  pr_text :: string
  pr_cleaned_text :: string
  pr_prediction :: string
  pr_confidence :: real
  pr_probabilities :: "(string \<times> real) list"
  pr_inference_time_ms :: real
  pr_timestamp :: string
  pr_key_words :: "word_score list"

text \<open>
  \<^verbatim>\<open>StatsResponse\<close> (lines 124-128). The distribution is a dict built from a \<^verbatim>\<open>set\<close>, whose
  iteration order is not fixed, so it is a map.
\<close>

record stats_response =
  total_predictions :: nat
  label_distribution :: "string \<rightharpoonup> nat"
  avg_confidence :: real
  recent_predictions :: "predict_response list"

text \<open>
  The two artifacts loaded at startup are not code of this repository. A term vector
  (one row of a scipy sparse matrix) is the list of its stored entries, column index and
  value, in stored order. The classifier gives the row \<^verbatim>\<open>predict_proba(features)[0]\<close> and
  may have the attribute \<^verbatim>\<open>coef_\<close>, a list of rows of coefficients.
\<close>

type_synonym features = "(nat \<times> real) list"

record vectorizer =
  transform :: "string \<Rightarrow> features"
  feature_names :: "string list"

record classifier =
  predict_proba :: "features \<Rightarrow> real list"
  coef :: "real list list option"

text \<open>
  The module's globals \<^verbatim>\<open>MODEL\<close> and \<^verbatim>\<open>VECTORIZER\<close> (\<^verbatim>\<open>None\<close> until loaded), which a
  request only reads, and the clocks: \<open>perf_counter env n\<close> is what the \<open>n\<close>-th call of
  \<^verbatim>\<open>time.perf_counter()\<close> or \<^verbatim>\<open>datetime.now()\<close> returns, \<open>now_iso env n\<close> its ISO form.
  With them, the float arithmetic of the machine.
\<close>

record env =
  MODEL :: "classifier option"
  VECTORIZER :: "vectorizer option"
  perf_counter :: "nat \<Rightarrow> real"
  now_iso :: "nat \<Rightarrow> string"
  arith :: float_ops

text \<open>What a request changes: the global \<^verbatim>\<open>PREDICTION_LOG\<close> and the number of clock reads.\<close>

record state =
  PREDICTION_LOG :: "predict_response list"
  clock :: nat

datatype error =
    HTTPException nat
  | ValidationError
  | AttributeError
  | ValueError
  | KeyError

definition LABEL_MAP :: "nat \<rightharpoonup> string" where
  "LABEL_MAP = [0 \<mapsto> ''negative'', 1 \<mapsto> ''positive'', 2 \<mapsto> ''neutral'']"

section \<open>Single prediction (\<open>predict_sentiment\<close>, lines 144-200)\<close>

fun argmax_from :: "real list \<Rightarrow> nat \<Rightarrow> nat \<Rightarrow> real \<Rightarrow> nat" where
  \<comment> \<open>the scan of \<^verbatim>\<open>np.argmax\<close>: the best index so far changes only on a strictly larger value\<close>
  "argmax_from [] i best v = best"
| "argmax_from (p # ps) i best v =
     (if v < p then argmax_from ps (Suc i) i p else argmax_from ps (Suc i) best v)"

definition argmax :: "real list \<Rightarrow> error + nat" where
  \<comment> \<open>\<^verbatim>\<open>int(np.argmax(proba))\<close>; numpy raises \<^verbatim>\<open>ValueError\<close> on an empty sequence\<close>
  "argmax ps = (case ps of [] \<Rightarrow> Inl ValueError | p # qs \<Rightarrow> Inr (argmax_from qs 1 0 p))"

definition first_max :: "real list \<Rightarrow> nat \<Rightarrow> bool" where
  \<comment> \<open>\<open>k\<close> is the position of the maximum of the list, the lowest one on a tie\<close>
  "first_max ps k =
     (k < length ps \<and> (\<forall>j < length ps. ps ! j \<le> ps ! k) \<and> (\<forall>j < k. ps ! j < ps ! k))"

fun probabilities_from :: "nat \<Rightarrow> real list \<Rightarrow> error + (string \<times> real) list" where
  \<comment> \<open>\<^verbatim>\<open>{LABEL_MAP[i]: round(float(p), 4) for i, p in enumerate(proba)}\<close>, from index \<open>i\<close>\<close>
  "probabilities_from i [] = Inr []"
| "probabilities_from i (p # ps) =
     (case LABEL_MAP i of
        None \<Rightarrow> Inl KeyError
      | Some label \<Rightarrow>
          (case probabilities_from (Suc i) ps of
             Inl e \<Rightarrow> Inl e
           | Inr rest \<Rightarrow> Inr ((label, py_round p 4) # rest)))"

definition nonzero :: "features \<Rightarrow> nat list" where
  \<comment> \<open>\<^verbatim>\<open>features.nonzero()[1]\<close>: the columns of the stored entries that are not zero\<close>
  "nonzero fs = map fst (filter (\<lambda>(i, w). w \<noteq> 0) fs)"

definition toarray_at :: "features \<Rightarrow> nat \<Rightarrow> real" where
  \<comment> \<open>\<^verbatim>\<open>features.toarray()[0][idx]\<close>: the dense value of a column (stored entries add up)\<close>
  "toarray_at fs idx = sum_list (map snd (filter (\<lambda>(i, w). i = idx) fs))"

definition coef_at :: "classifier \<Rightarrow> nat \<Rightarrow> nat \<Rightarrow> real option" where
  \<comment> \<open>\<^verbatim>\<open>MODEL.coef_[row][idx] if hasattr(MODEL, "coef_") else 0\<close>; \<open>None\<close> is the IndexError\<close>
  "coef_at m row idx =
     (case coef m of
        None \<Rightarrow> Some 0
      | Some rows \<Rightarrow>
          if row < length rows \<and> idx < length (rows ! row) then Some (rows ! row ! idx)
          else None)"

definition net_score :: "float_ops \<Rightarrow> classifier \<Rightarrow> real \<Rightarrow> real \<Rightarrow> real \<Rightarrow> real" where
  \<comment> \<open>line 177, \<^verbatim>\<open>float((pos_coef - neg_coef) * tfidf_val)\<close>: a float subtraction and a
      float multiplication. Without \<^verbatim>\<open>coef_\<close> both coefficients are the int 0, their
      difference is the int 0, and 0 times the weight is 0.0\<close>
  "net_score ar m pos_coef neg_coef tfidf_val =
     (case coef m of
        None \<Rightarrow> 0
      | Some rows \<Rightarrow> fmul ar (fsub ar pos_coef neg_coef) tfidf_val)"

definition word_entry ::
  "float_ops \<Rightarrow> classifier \<Rightarrow> string \<Rightarrow> real \<Rightarrow> real \<Rightarrow> real \<Rightarrow> word_score" where
  \<comment> \<open>lines 177-179: the entry appended for one word\<close>
  "word_entry ar m w pos_coef neg_coef tfidf_val =
     (let net = net_score ar m pos_coef neg_coef tfidf_val;
          word_type = (if net > 0 then ''positive'' else ''negative'')
      in \<lparr>ws_word = w, ws_score = py_round \<bar>net\<bar> 4, ws_type = word_type\<rparr>)"

fun key_words_loop ::
  "float_ops \<Rightarrow> classifier \<Rightarrow> string list \<Rightarrow> features \<Rightarrow> nat list \<Rightarrow> word_score list \<Rightarrow>
   bool \<times> word_score list"
where
  \<comment> \<open>the \<^verbatim>\<open>for idx in feature_indices\<close> loop (lines 170-179) on the list \<^verbatim>\<open>key_words\<close>; the
      flag is False when an exception left the loop, with what had been appended so far\<close>
  "key_words_loop ar m names fs [] acc = (True, acc)"
| "key_words_loop ar m names fs (idx # rest) acc =
     (if length names \<le> idx then (False, acc)
      else
        let w = names ! idx
        in if CHR '' '' \<in> set w then key_words_loop ar m names fs rest acc
           else
             (case coef_at m 1 idx of
                None \<Rightarrow> (False, acc)
              | Some pos_coef \<Rightarrow>
                  (case coef_at m 0 idx of
                     None \<Rightarrow> (False, acc)
                   | Some neg_coef \<Rightarrow>
                       key_words_loop ar m names fs rest
                         (acc @ [word_entry ar m w pos_coef neg_coef (toarray_at fs idx)]))))"

definition key_words_of ::
  "float_ops \<Rightarrow> classifier \<Rightarrow> vectorizer \<Rightarrow> features \<Rightarrow> word_score list" where
  \<comment> \<open>lines 163-183: a finished loop is sorted by falling score (\<^verbatim>\<open>list.sort\<close> is stable,
      also with \<^verbatim>\<open>reverse=True\<close>) and cut to 8; \<^verbatim>\<open>except Exception: pass\<close> keeps the list as
      the exception left it\<close>
  "key_words_of ar m v fs =
     (case key_words_loop ar m (feature_names v) fs (nonzero fs) [] of
        (True, kws) \<Rightarrow> take 8 (sort_key (\<lambda>k. - ws_score k) kws)
      | (False, kws) \<Rightarrow> kws)"

definition entry_at ::
  "float_ops \<Rightarrow> classifier \<Rightarrow> string list \<Rightarrow> features \<Rightarrow> nat \<Rightarrow> word_score" where
  \<comment> \<open>the entry the loop appends for the column \<open>idx\<close> when its lookups succeed\<close>
  "entry_at ar m names fs idx =
     word_entry ar m (names ! idx) (the (coef_at m 1 idx)) (the (coef_at m 0 idx))
       (toarray_at fs idx)"

definition single_word :: "string list \<Rightarrow> nat \<Rightarrow> bool" where
  \<comment> \<open>the test \<^verbatim>\<open>" " in word\<close> of line 172, negated\<close>
  "single_word names idx = (CHR '' '' \<notin> set (names ! idx))"

definition well_shaped :: "classifier \<Rightarrow> vectorizer \<Rightarrow> features \<Rightarrow> bool" where
  \<comment> \<open>the artifacts fit together: every column of the term vector is a column of the
      vocabulary and, when there is a \<^verbatim>\<open>coef_\<close>, of its rows 0 and 1\<close>
  "well_shaped m v fs =
     ((\<forall>i \<in> set (nonzero fs). i < length (feature_names v)) \<and>
      (case coef m of
         None \<Rightarrow> True
       | Some rows \<Rightarrow>
           2 \<le> length rows \<and>
           (\<forall>i \<in> set (nonzero fs). i < length (rows ! 0) \<and> i < length (rows ! 1))))"

definition log_append :: "predict_response list \<Rightarrow> predict_response \<Rightarrow> predict_response list" where
  \<comment> \<open>lines 196-198: \<^verbatim>\<open>append\<close>, then \<^verbatim>\<open>pop(0)\<close> when the length is over 1000\<close>
  "log_append entries r =
     (let entries' = entries @ [r] in if length entries' > 1000 then tl entries' else entries')"

definition tick :: "state \<Rightarrow> state" where
  "tick s = s\<lparr>clock := Suc (clock s)\<rparr>"

definition predict_sentiment :: "env \<Rightarrow> state \<Rightarrow> string \<Rightarrow> (error + predict_response) \<times> state" where
  "predict_sentiment env s text =
     (let cleaned = clean_text text
      in if strip cleaned = [] then (Inl (HTTPException 400), s)
         else
           let start = perf_counter env (clock s); s1 = tick s
           in case VECTORIZER env of
                None \<Rightarrow> (Inl AttributeError, s1)
              | Some v \<Rightarrow>
                  let fs = transform v cleaned
                  in case MODEL env of
                       None \<Rightarrow> (Inl AttributeError, s1)
                     | Some m \<Rightarrow>
                         let proba = predict_proba m fs
                         in case argmax proba of
                              Inl e \<Rightarrow> (Inl e, s1)
                            | Inr pred_idx \<Rightarrow>
                                let elapsed_ms = (perf_counter env (clock s1) - start) * 1000;
                                    s2 = tick s1
                                in case probabilities_from 0 proba of
                                     Inl e \<Rightarrow> (Inl e, s2)
                                   | Inr probabilities \<Rightarrow>
                                       let key_words = key_words_of (arith env) m v fs
                                       in case LABEL_MAP pred_idx of
                                            None \<Rightarrow> (Inl KeyError, s2)
                                          | Some label \<Rightarrow>
                                              let result =
                                                \<lparr>pr_text = text,
                                                 pr_cleaned_text = cleaned,
                                                 pr_prediction = label,
                                                 pr_confidence = py_round (proba ! pred_idx) 4,
                                                 pr_probabilities = probabilities,
                                                 pr_inference_time_ms = py_round elapsed_ms 2,
                                                 pr_timestamp = now_iso env (clock s2),
                                                 pr_key_words = key_words\<rparr>;
                                                  s3 = tick s2
                                              in (Inr result,
                                                  s3\<lparr>PREDICTION_LOG :=
                                                       log_append (PREDICTION_LOG s3) result\<rparr>))"

section \<open>The routes\<close>

definition valid_text :: "string \<Rightarrow> bool" where
  \<comment> \<open>\<^verbatim>\<open>Field(..., min_length=1, max_length=5000)\<close> of \<^verbatim>\<open>PredictRequest\<close> and \<^verbatim>\<open>CompareRequest\<close>\<close>
  "valid_text t = (1 \<le> length t \<and> length t \<le> 5000)"

definition predict :: "env \<Rightarrow> state \<Rightarrow> string \<Rightarrow> (error + predict_response) \<times> state" where
  \<comment> \<open>\<^verbatim>\<open>POST /predict\<close> (lines 215-220)\<close>
  "predict env s text =
     (if \<not> valid_text text then (Inl ValidationError, s)
      else if MODEL env = None then (Inl (HTTPException 503), s)
      else predict_sentiment env s text)"

fun predict_all :: "env \<Rightarrow> state \<Rightarrow> string list \<Rightarrow> (error + predict_response list) \<times> state" where
  \<comment> \<open>\<^verbatim>\<open>[predict_sentiment(text) for text in request.texts]\<close>: an exception ends the
      comprehension and no list is built\<close>
  "predict_all env s [] = (Inr [], s)"
| "predict_all env s (t # ts) =
     (case predict_sentiment env s t of
        (Inl e, s') \<Rightarrow> (Inl e, s')
      | (Inr r, s') \<Rightarrow>
          (case predict_all env s' ts of
             (Inl e, s'') \<Rightarrow> (Inl e, s'')
           | (Inr rs, s'') \<Rightarrow> (Inr (r # rs), s'')))"

definition predict_batch ::
  "env \<Rightarrow> state \<Rightarrow> string list \<Rightarrow> (error + predict_response list \<times> real) \<times> state" where
  \<comment> \<open>\<^verbatim>\<open>POST /predict/batch\<close> (lines 223-236); \<^verbatim>\<open>BatchPredictRequest\<close> takes 1 to 50 texts\<close>
  "predict_batch env s texts =
     (if \<not> (1 \<le> length texts \<and> length texts \<le> 50) then (Inl ValidationError, s)
      else if MODEL env = None then (Inl (HTTPException 503), s)
      else
        let start = perf_counter env (clock s); s1 = tick s
        in case predict_all env s1 texts of
             (Inl e, s2) \<Rightarrow> (Inl e, s2)
           | (Inr results, s2) \<Rightarrow>
               let total_ms = (perf_counter env (clock s2) - start) * 1000
               in (Inr (results, py_round total_ms 2), tick s2))"

fun delta_of ::
  "(string \<times> real) list \<Rightarrow> (string \<times> real) list \<Rightarrow> error + (string \<times> real) list" where
  \<comment> \<open>lines 248-251: for each label of A in order; a label B does not have is a KeyError\<close>
  "delta_of [] pb = Inr []"
| "delta_of ((label, pa) # rest) pb =
     (case map_of pb label of
        None \<Rightarrow> Inl KeyError
      | Some q \<Rightarrow>
          (case delta_of rest pb of
             Inl e \<Rightarrow> Inl e
           | Inr d \<Rightarrow> Inr ((label, py_round (pa - q) 4) # d)))"

definition compare ::
  "env \<Rightarrow> state \<Rightarrow> string \<Rightarrow> string \<Rightarrow>
   (error + predict_response \<times> predict_response \<times> (string \<times> real) list) \<times> state" where
  \<comment> \<open>\<^verbatim>\<open>POST /compare\<close> (lines 239-257)\<close>
  "compare env s text_a text_b =
     (if \<not> (valid_text text_a \<and> valid_text text_b) then (Inl ValidationError, s)
      else if MODEL env = None then (Inl (HTTPException 503), s)
      else
        case predict_sentiment env s text_a of
          (Inl e, s1) \<Rightarrow> (Inl e, s1)
        | (Inr result_a, s1) \<Rightarrow>
            (case predict_sentiment env s1 text_b of
               (Inl e, s2) \<Rightarrow> (Inl e, s2)
             | (Inr result_b, s2) \<Rightarrow>
                 (case delta_of (pr_probabilities result_a) (pr_probabilities result_b) of
                    Inl e \<Rightarrow> (Inl e, s2)
                  | Inr delta \<Rightarrow> (Inr (result_a, result_b, delta), s2))))"

definition get_stats :: "env \<Rightarrow> state \<Rightarrow> stats_response \<times> state" where
  \<comment> \<open>\<^verbatim>\<open>GET /stats\<close> (lines 260-282); line 273 is the builtin \<^verbatim>\<open>sum\<close> of the floats and a
      float division by the length\<close>
  "get_stats env s =
     (let entries = PREDICTION_LOG s
      in if entries = [] then
           (\<lparr>total_predictions = 0, label_distribution = Map.empty, avg_confidence = 0,
             recent_predictions = []\<rparr>, s)
         else
           let labels = map pr_prediction entries;
               distribution =
                 (\<lambda>label. if label \<in> set labels then Some (count_list labels label) else None);
               avg_conf =
                 fdiv (arith env) (fsum (arith env) (map pr_confidence entries))
                   (real (length entries));
               recent = rev (drop (length entries - 10) entries)
           in (\<lparr>total_predictions = length entries, label_distribution = distribution,
                avg_confidence = py_round avg_conf 4, recent_predictions = recent\<rparr>, s))"

section \<open>A small loaded service\<close>

text \<open>
  Artifacts to run the definitions on: a vocabulary of five terms, one of them a bigram,
  a vectorizer that finds the same four terms in every text, and a linear classifier of
  three classes. The arithmetic they run on is the exact one.
\<close>

definition exact_ops :: float_ops where
  "exact_ops = \<lparr>fsub = (-), fmul = (*), fdiv = (/), fsum = sum_list\<rparr>"

definition toy_vectorizer :: vectorizer where
  "toy_vectorizer =
     \<lparr>transform = (\<lambda>t. [(0, 1 / 2), (2, 1 / 4), (3, 1 / 2), (4, 1 / 4)]),
      feature_names = [''good'', ''bad'', ''good product'', ''product'', ''fine'']\<rparr>"

definition toy_model :: classifier where
  "toy_model =
     \<lparr>predict_proba = (\<lambda>fs. [1 / 5, 7 / 10, 1 / 10]),
      coef = Some [[- 1, 2, 0, 1 / 2, 0], [1, - 2, 1, 7 / 2, 0], [0, 0, 0, 0, 1]]\<rparr>"

definition toy_env :: env where
  "toy_env =
     \<lparr>MODEL = Some toy_model, VECTORIZER = Some toy_vectorizer,
      perf_counter = (\<lambda>n. real n / 1000), now_iso = (\<lambda>n. ''2024-01-01T00:00:00''),
      arith = exact_ops\<rparr>"

definition no_coef_env :: env where
  \<comment> \<open>the same service with a classifier that has no \<^verbatim>\<open>coef_\<close>\<close>
  "no_coef_env = toy_env\<lparr>MODEL := Some (toy_model\<lparr>coef := None\<rparr>)\<rparr>"

definition word_vectorizer :: vectorizer where
  \<comment> \<open>a second vectorizer, of two words: it finds \<open>bad\<close> in the text \<open>bad\<close> and \<open>good\<close>
      in any other\<close>
  "word_vectorizer =
     \<lparr>transform = (\<lambda>t. if t = ''bad'' then [(1, 1)] else [(0, 1)]),
      feature_names = [''good'', ''bad'']\<rparr>"

definition word_model :: classifier where
  "word_model =
     \<lparr>predict_proba =
        (\<lambda>fs. if fs = [(1, 1)] then [7 / 10, 1 / 5, 1 / 10] else [1 / 5, 7 / 10, 1 / 10]),
      coef = Some [[- 1, 1], [1, - 1], [0, 0]]\<rparr>"

definition word_env :: env where
  "word_env =
     \<lparr>MODEL = Some word_model, VECTORIZER = Some word_vectorizer,
      perf_counter = (\<lambda>n. real n / 1000), now_iso = (\<lambda>n. ''2024-01-01T00:00:00''),
      arith = exact_ops\<rparr>"




definition state0 :: state where
  \<comment> \<open>the state at startup: \<^verbatim>\<open>PREDICTION_LOG: list[dict] = []\<close>\<close>
  "state0 = \<lparr>PREDICTION_LOG = [], clock = 0\<rparr>"

section \<open>Properties of the text preprocessing\<close>

lemma space_is_space: "is_space (CHR '' '')" by (simp add: is_space_def)

lemma single_spaced_tl: "single_spaced (c # cs) \<Longrightarrow> single_spaced cs"
  by (cases cs) auto

lemma collapse_ws_hd: "cs \<noteq> [] \<Longrightarrow> \<not> is_space (hd cs) \<Longrightarrow> collapse_ws cs \<noteq> [] \<and> hd (collapse_ws cs) = hd cs"
  by (cases cs) auto

lemma single_spaced_collapse: "single_spaced (collapse_ws s)"
proof (induction s rule: collapse_ws.induct)
  case 1 show ?case by simp
next
  case (2 c cs)
  show ?case
  proof (cases "is_space c")
    case True
    let ?r = "dropWhile is_space cs"
    have ih: "single_spaced (collapse_ws ?r)" using 2 True by simp
    show ?thesis
    proof (cases "?r = []")
      case True
      with \<open>is_space c\<close> show ?thesis by (simp del: dropWhile_eq_Nil_conv)
    next
      case False
      then have "\<not> is_space (hd ?r)" by (rule hd_dropWhile)
      with False have "collapse_ws ?r \<noteq> [] \<and> hd (collapse_ws ?r) = hd ?r" by (simp add: collapse_ws_hd)
      then obtain d ds where "collapse_ws ?r = d # ds" "d = hd ?r" by (cases "collapse_ws ?r") auto
      with ih \<open>\<not> is_space (hd ?r)\<close> \<open>is_space c\<close> show ?thesis by simp
    qed
  next
    case False
    then have ih: "single_spaced (collapse_ws cs)" using 2 by simp
    with False show ?thesis by (cases "collapse_ws cs") auto
  qed
qed

lemma collapse_single_spaced: "single_spaced s \<Longrightarrow> collapse_ws s = s"
  by (induction s rule: single_spaced.induct) (auto simp: space_is_space)

lemma single_spaced_drop: "single_spaced s \<Longrightarrow> single_spaced (drop n s)"
proof (induction n arbitrary: s)
  case 0 then show ?case by simp
next
  case (Suc n) then show ?case by (cases s) (auto dest: single_spaced_tl)
qed

lemma single_spaced_take: "single_spaced s \<Longrightarrow> single_spaced (take n s)"
proof (induction s arbitrary: n rule: single_spaced.induct)
  case 1 then show ?case by simp
next
  case (2 c) then show ?case by (cases n) auto
next
  case (3 c d cs)
  show ?case
  proof (cases n)
    case 0 then show ?thesis by simp
  next
    case (Suc m)
    have "single_spaced (take m (d # cs))" using 3 by simp
    with 3(2) Suc show ?thesis by (cases m) auto
  qed
qed

lemma strip_as_take_drop: "\<exists>i j. strip s = take i (drop j s)"
proof -
  let ?a = "dropWhile is_space s"
  have "strip s = rev (drop (length (takeWhile is_space (rev ?a))) (rev ?a))"
    unfolding strip_def by (metis dropWhile_eq_drop)
  also have "\<dots> = take (length ?a - length (takeWhile is_space (rev ?a))) ?a"
    by (simp add: rev_drop)
  finally show ?thesis by (metis dropWhile_eq_drop)
qed

lemma single_spaced_strip: "single_spaced s \<Longrightarrow> single_spaced (strip s)"
  using strip_as_take_drop[of s] by (auto simp: single_spaced_take single_spaced_drop)

lemma strip_idem: "strip (strip s) = strip s"
proof -
  let ?a = "dropWhile is_space s"
  let ?b = "dropWhile is_space (rev ?a)"
  have b: "strip s = rev ?b" by (simp add: strip_def)
  have "dropWhile is_space (rev ?b) = rev ?b"
  proof (cases "?b = []")
    case True then show ?thesis by (simp del: dropWhile_eq_Nil_conv)
  next
    case False
    have ne: "?a \<noteq> []"
    proof
      assume "?a = []"
      then have "?b = []" by (simp only: rev.simps dropWhile.simps)
      with False show False by blast
    qed
    then have na: "\<not> is_space (hd ?a)" by (rule hd_dropWhile)
    have "\<exists>k. rev ?b = take k ?a" by (metis dropWhile_eq_drop rev_drop rev_rev_ident)
    then obtain k where k: "rev ?b = take k ?a" by blast
    have "k \<noteq> 0"
    proof
      assume "k = 0"
      with k have "rev ?b = []" by (simp only: take_0)
      then have "?b = []" by (simp only: rev_is_Nil_conv)
      with False show False by blast
    qed
    with k ne have "hd (rev ?b) = hd ?a" by (cases ?a; cases k) auto
    with na show ?thesis by (simp add: dropWhile_eq_self_iff)
  qed
  then show ?thesis by (simp add: strip_def)
qed

lemma strip_set: "set (strip s) \<subseteq> set s"
  unfolding strip_def by (metis set_dropWhileD set_rev subsetI)

lemma collapse_set: "set (collapse_ws s) \<subseteq> {c \<in> set s. \<not> is_space c} \<union> {CHR '' ''}"
proof (induction s rule: collapse_ws.induct)
  case 1 show ?case by simp
next
  case (2 c cs)
  show ?case
  proof (cases "is_space c")
    case True
    have "set (dropWhile is_space cs) \<subseteq> set cs" by (auto dest: set_dropWhileD)
    with 2 True show ?thesis by auto
  next
    case False with 2 show ?thesis by auto
  qed
qed

lemma sub_url_set: "set (sub_url s) \<subseteq> set s"
proof (induction s rule: sub_url.induct)
  case 1 show ?case by simp
next
  case (2 c cs)
  have "set (dropWhile (\<lambda>d. \<not> is_space d) cs) \<subseteq> set cs" by (auto dest: set_dropWhileD)
  with 2 show ?case by (cases "url_start (c # cs)") auto
qed

lemma sub_tag_set: "set (sub_tag t s) \<subseteq> set s"
proof (induction t s rule: sub_tag.induct)
  case 1 show ?case by simp
next
  case (2 t c cs)
  have "set (dropWhile is_word cs) \<subseteq> set cs" by (auto dest: set_dropWhileD)
  with 2 show ?case by (cases "c = t \<and> cs \<noteq> [] \<and> is_word (hd cs)") auto
qed

lemma lower_char_not_upper: "\<not> is_upper_az (lower_char c)"
  by (auto simp: is_upper_az_def lower_char_def Let_def)

lemma lower_char_fix: "is_lower_az c \<or> is_space c \<Longrightarrow> lower_char c = c"
  by (auto simp: is_lower_az_def is_space_def lower_char_def Let_def)

lemma lower_fix: "\<forall>c \<in> set s. is_lower_az c \<or> is_space c \<Longrightarrow> lower s = s"
  by (simp add: lower_def lower_char_fix map_idI)

lemma sub_url_fix: "\<not> contains_url s \<Longrightarrow> sub_url s = s"
  by (induction s) auto

lemma sub_tag_fix: "t \<notin> set s \<Longrightarrow> sub_tag t s = s"
  by (induction s) auto

lemma strip_non_alpha_fix: "\<forall>c \<in> set s. is_lower_az c \<or> is_space c \<Longrightarrow> strip_non_alpha s = s"
  by (auto simp: strip_non_alpha_def is_alpha_az_def filter_id_conv)

lemma clean_text_chars: "c \<in> set (clean_text x) \<Longrightarrow> is_lower_az c \<or> c = CHR '' ''"
proof -
  let ?u = "sub_tag (CHR ''#'') (sub_tag (CHR ''@'') (sub_url (lower x)))"
  assume "c \<in> set (clean_text x)"
  then have "c \<in> set (collapse_ws (strip_non_alpha ?u))"
    using strip_set unfolding clean_text_def by blast
  then have "(c \<in> set (strip_non_alpha ?u) \<and> \<not> is_space c) \<or> c = CHR '' ''"
    using collapse_set by blast
  moreover have "set ?u \<subseteq> set (lower x)"
    using sub_tag_set sub_url_set by (meson subset_trans)
  moreover have "\<forall>d \<in> set (lower x). \<not> is_upper_az d"
    by (auto simp: lower_def lower_char_not_upper)
  ultimately show ?thesis
    by (auto simp: strip_non_alpha_def is_alpha_az_def)
qed

lemma clean_text_single_spaced: "single_spaced (clean_text x)"
  unfolding clean_text_def by (intro single_spaced_strip single_spaced_collapse)

lemma clean_text_strip: "strip (clean_text x) = clean_text x"
  unfolding clean_text_def by (rule strip_idem)

text \<open>
  Claim C1, as amended. Cleaning a text twice is not always the same as cleaning it once:
  deleting the other characters can bring the letters of \<open>http\<close> or \<open>www\<close> together, and
  the second pass then deletes the word. What holds:
  for every text \<open>x\<close> whose cleaned form has no match of the URL pattern, cleaning the
  cleaned form returns it unchanged.
\<close>

theorem clean_text_idempotent_without_url:
  "\<not> contains_url (clean_text x) \<Longrightarrow> clean_text (clean_text x) = clean_text x"
proof -
  let ?y = "clean_text x"
  assume nu: "\<not> contains_url ?y"
  have ch: "\<forall>c \<in> set ?y. is_lower_az c \<or> is_space c"
    using clean_text_chars space_is_space by blast
  have "CHR ''@'' \<notin> set ?y" "CHR ''#'' \<notin> set ?y"
    using clean_text_chars[of "CHR ''@''" x] clean_text_chars[of "CHR ''#''" x]
    by (auto simp: is_lower_az_def)
  then have "sub_tag (CHR ''#'') (sub_tag (CHR ''@'') (sub_url (lower ?y))) = ?y"
    using nu ch by (simp add: lower_fix sub_url_fix sub_tag_fix)
  then have "clean_text ?y = strip (collapse_ws (strip_non_alpha ?y))"
    by (simp add: clean_text_def[of ?y])
  also have "\<dots> = strip (collapse_ws ?y)" using ch by (simp add: strip_non_alpha_fix)
  also have "\<dots> = strip ?y" by (simp add: collapse_single_spaced clean_text_single_spaced)
  finally show ?thesis by (simp add: clean_text_strip)
qed

text \<open>The theorem at a text with capitals, punctuation and a mention.\<close>

theorem clean_text_idempotent_witness: "\<not> contains_url (clean_text ''I LOVE this, @bob!'') \<and> clean_text (clean_text ''I LOVE this, @bob!'') = ''i love this''"
proof -
  have v: "clean_text ''I LOVE this, @bob!'' = ''i love this''" by code_simp
  have n: "\<not> contains_url ''i love this''" by code_simp
  have "\<not> contains_url (clean_text ''I LOVE this, @bob!'')" unfolding v by (rule n)
  from this have "clean_text (clean_text ''I LOVE this, @bob!'') = clean_text ''I LOVE this, @bob!''"
    by (rule clean_text_idempotent_without_url)
  with n show ?thesis by (simp add: v)
qed

text \<open>
  The claim C1 as stated fails: \<^verbatim>\<open>"h.ttpfoo"\<close> cleans to \<^verbatim>\<open>"httpfoo"\<close>, which cleans to the
  empty string.
\<close>

theorem clean_text_not_idempotent: "clean_text (clean_text ''h.ttpfoo'') \<noteq> clean_text ''h.ttpfoo''"
proof -
  have a: "clean_text ''h.ttpfoo'' = ''httpfoo''" by code_simp
  have b: "clean_text ''httpfoo'' = []" by code_simp
  show ?thesis by (simp add: a b)
qed

section \<open>Properties of rounding\<close>

lemma rhe_bounds: "\<lfloor>x\<rfloor> \<le> round_half_even x \<and> round_half_even x \<le> \<lfloor>x\<rfloor> + 1"
  by (simp add: round_half_even_def Let_def)

lemma rhe_mono:
  assumes "x \<le> y" shows "round_half_even x \<le> round_half_even y"
proof (cases "\<lfloor>x\<rfloor> = \<lfloor>y\<rfloor>")
  case True
  with assms show ?thesis by (auto simp: round_half_even_def Let_def)
next
  case False
  with assms have "\<lfloor>x\<rfloor> < \<lfloor>y\<rfloor>" by (simp add: floor_mono order.strict_iff_order)
  then have "\<lfloor>x\<rfloor> + 1 \<le> \<lfloor>y\<rfloor>" by simp
  with rhe_bounds[of x] rhe_bounds[of y] show ?thesis by linarith
qed



lemma py_round_mono: "x \<le> y \<Longrightarrow> py_round x n \<le> py_round y n"
  by (simp add: py_round_def divide_right_mono rhe_mono)



lemma py_round_0: "py_round 0 n = 0"
  by (simp add: py_round_def round_half_even_def)

section \<open>Properties of the key-word loop and of stable sorting\<close>

lemma well_shaped_lookup:
  assumes "well_shaped m v fs" "i \<in> set (nonzero fs)"
  shows "i < length (feature_names v)" "coef_at m 1 i \<noteq> None" "coef_at m 0 i \<noteq> None"
  using assms by (auto simp: well_shaped_def coef_at_def split: option.splits)

lemma key_words_loop_ok:
  assumes "\<forall>i \<in> set idxs. i < length names \<and> coef_at m 1 i \<noteq> None \<and> coef_at m 0 i \<noteq> None"
  shows "key_words_loop ar m names fs idxs acc =
           (True, acc @ map (entry_at ar m names fs) (filter (single_word names) idxs))"
  using assms
proof (induction idxs arbitrary: acc)
  case Nil
  show ?case by simp
next
  case (Cons i idxs)
  then have ih: "\<And>acc'. key_words_loop ar m names fs idxs acc' =
      (True, acc' @ map (entry_at ar m names fs) (filter (single_word names) idxs))"
    by simp
  from Cons.prems obtain p n where pn: "i < length names" "coef_at m 1 i = Some p" "coef_at m 0 i = Some n"
    by auto
  have e: "entry_at ar m names fs i = word_entry ar m (names ! i) p n (toarray_at fs i)"
    by (simp add: entry_at_def pn del: One_nat_def)
  have nl: "\<not> length names \<le> i" using pn(1) by simp
  show ?case
    by (simp add: pn(2,3) nl ih Let_def e single_word_def[of names i] del: One_nat_def)
qed

lemma key_words_of_ok:
  assumes "well_shaped m v fs"
  shows "key_words_of ar m v fs =
           take 8 (sort_key (\<lambda>k. - ws_score k)
             (map (entry_at ar m (feature_names v) fs) (filter (single_word (feature_names v)) (nonzero fs))))"
proof -
  have "\<forall>i \<in> set (nonzero fs). i < length (feature_names v) \<and> coef_at m 1 i \<noteq> None \<and> coef_at m 0 i \<noteq> None"
    using well_shaped_lookup[OF assms] by blast
  then show ?thesis
    by (simp add: key_words_of_def key_words_loop_ok)
qed

lemma insort_key_map:
  "insort_key g (e x) (map e ys) = map e (insort_key (\<lambda>i. g (e i)) x ys)"
  by (induction ys) auto

lemma sort_key_map: "sort_key g (map e xs) = map e (sort_key (\<lambda>i. g (e i)) xs)"
  by (induction xs) (simp_all add: insort_key_map)







lemma word_entry_type:
  "ws_type (word_entry ar m w p n t) =
     (if 0 < net_score ar m p n t then ''positive'' else ''negative'')"
  by (simp add: word_entry_def Let_def)

section \<open>Properties of \<open>argmax\<close> and of the probabilities\<close>

lemma argmax_from_first_max:
  assumes "length pre = i" "b < i" "pre ! b = v" "\<forall>j < i. pre ! j \<le> v" "\<forall>j < b. pre ! j < v"
  shows "first_max (pre @ ps) (argmax_from ps i b v)"
  using assms
proof (induction ps arbitrary: pre i b v)
  case Nil
  then show ?case by (simp add: first_max_def)
next
  case (Cons p ps)
  let ?pre = "pre @ [p]"
  have len: "length ?pre = Suc i" using Cons.prems(1) by simp
  show ?case
  proof (cases "v < p")
    case True
    have "first_max (?pre @ ps) (argmax_from ps (Suc i) i p)"
    proof (rule Cons.IH[OF len])
      show "i < Suc i" by simp
      show "?pre ! i = p" using Cons.prems(1) by (auto simp: nth_append)
      show "\<forall>j < Suc i. ?pre ! j \<le> p"
        using Cons.prems(1,4) True by (auto simp: nth_append less_Suc_eq)
      show "\<forall>j < i. ?pre ! j < p"
        using Cons.prems(1,4) True by (auto simp: nth_append)
    qed
    with True show ?thesis by simp
  next
    case False
    have "first_max (?pre @ ps) (argmax_from ps (Suc i) b v)"
    proof (rule Cons.IH[OF len])
      show "b < Suc i" using Cons.prems(2) by simp
      show "?pre ! b = v" using Cons.prems(1,2,3) by (simp add: nth_append)
      show "\<forall>j < Suc i. ?pre ! j \<le> v"
        using Cons.prems(1,4) False by (auto simp: nth_append less_Suc_eq)
      show "\<forall>j < b. ?pre ! j < v"
        using Cons.prems(1,2,5) by (auto simp: nth_append)
    qed
    with False show ?thesis by simp
  qed
qed

lemma argmax_first_max: "argmax ps = Inr k \<Longrightarrow> first_max ps k"
proof (cases ps)
  case Nil
  assume "argmax ps = Inr k"
  with Nil show ?thesis by (simp add: argmax_def)
next
  case (Cons p qs)
  assume "argmax ps = Inr k"
  with Cons have k: "k = argmax_from qs 1 0 p" by (simp add: argmax_def)
  have "first_max ([p] @ qs) (argmax_from qs 1 0 p)"
    by (rule argmax_from_first_max) simp_all
  with Cons k show ?thesis by simp
qed

lemma argmax_nonempty: "ps \<noteq> [] \<Longrightarrow> \<exists>k. argmax ps = Inr k"
  by (cases ps) (simp_all add: argmax_def)

lemma argmax_Inl: "argmax ps = Inl e \<Longrightarrow> ps = [] \<and> e = ValueError"
  by (cases ps) (simp_all add: argmax_def)

lemma LABEL_MAP_Some: "LABEL_MAP i = Some l \<Longrightarrow> i < 3"
  by (auto simp: LABEL_MAP_def split: if_splits)

lemma LABEL_MAP_lt: "i < 3 \<Longrightarrow> \<exists>l. LABEL_MAP i = Some l"
  by (auto simp: LABEL_MAP_def)

lemma LABEL_MAP_inj: "LABEL_MAP i = Some l \<Longrightarrow> LABEL_MAP j = Some l \<Longrightarrow> i = j"
  by (auto simp: LABEL_MAP_def split: if_splits)

lemma probabilities_from_ok:
  "i + length ps \<le> 3 \<Longrightarrow> \<exists>probs. probabilities_from i ps = Inr probs"
proof (induction ps arbitrary: i)
  case Nil
  show ?case by simp
next
  case (Cons p ps)
  then obtain l where "LABEL_MAP i = Some l" using LABEL_MAP_lt[of i] by auto
  moreover obtain rest where "probabilities_from (Suc i) ps = Inr rest"
    using Cons.IH[of "Suc i"] Cons.prems by auto
  ultimately show ?case by simp
qed

lemma probabilities_from_Inr:
  assumes "probabilities_from i ps = Inr probs"
  shows "length probs = length ps \<and>
         (\<forall>j < length ps. LABEL_MAP (i + j) = Some (fst (probs ! j)) \<and>
                           snd (probs ! j) = py_round (ps ! j) 4)"
  using assms
proof (induction ps arbitrary: i probs)
  case Nil
  then show ?case by simp
next
  case (Cons p ps)
  from Cons.prems obtain l rest where l: "LABEL_MAP i = Some l"
    and rest: "probabilities_from (Suc i) ps = Inr rest" and probs: "probs = (l, py_round p 4) # rest"
    by (auto split: option.splits sum.splits)
  from Cons.IH[OF rest] have ih: "length rest = length ps"
    "\<forall>j < length ps. LABEL_MAP (Suc i + j) = Some (fst (rest ! j)) \<and> snd (rest ! j) = py_round (ps ! j) 4"
    by auto
  show ?case
    using l ih probs by (auto simp: nth_Cons split: nat.splits)
qed

lemma probabilities_from_Inl: "probabilities_from i ps = Inl e \<Longrightarrow> e = KeyError"
  by (induction ps arbitrary: i) (auto split: option.splits sum.splits)

lemma probabilities_from_map_of:
  assumes "probabilities_from 0 ps = Inr probs" "k < length ps" "LABEL_MAP k = Some l"
  shows "map_of probs l = Some (py_round (ps ! k) 4)"
proof -
  from probabilities_from_Inr[OF assms(1)] have len: "length probs = length ps"
    and el: "\<forall>j < length ps. LABEL_MAP j = Some (fst (probs ! j)) \<and> snd (probs ! j) = py_round (ps ! j) 4"
    by auto
  have "distinct (map fst probs)"
    unfolding distinct_conv_nth
  proof (intro allI impI)
    fix a b assume "a < length (map fst probs)" "b < length (map fst probs)" "a \<noteq> b"
    then show "map fst probs ! a \<noteq> map fst probs ! b"
      using el len LABEL_MAP_inj[of a _ b] by (metis length_map nth_map)
  qed
  moreover have "(l, py_round (ps ! k) 4) \<in> set probs"
  proof -
    have "probs ! k = (l, py_round (ps ! k) 4)"
      using el assms(2,3) by (metis option.inject prod.collapse)
    then show ?thesis using assms(2) len by (metis nth_mem)
  qed
  ultimately show ?thesis by simp
qed

section \<open>Properties of a single prediction\<close>

lemma strip_clean_text_Nil: "strip (clean_text text) = [] \<longleftrightarrow> clean_text text = []"
  by (simp add: clean_text_strip)

lemma predict_sentiment_empty:
  "clean_text text = [] \<Longrightarrow> predict_sentiment env s text = (Inl (HTTPException 400), s)"
  by (simp add: predict_sentiment_def strip_def)

lemma predict_sentiment_Inl:
  "fst (predict_sentiment env s text) = Inl e \<Longrightarrow>
     PREDICTION_LOG (snd (predict_sentiment env s text)) = PREDICTION_LOG s"
  by (auto simp: predict_sentiment_def Let_def tick_def split: if_splits option.splits sum.splits)

lemma predict_sentiment_Inr:
  assumes "fst (predict_sentiment env s text) = Inr r"
  obtains v m i probs where
    "VECTORIZER env = Some v" "MODEL env = Some m" "clean_text text \<noteq> []"
    "argmax (predict_proba m (transform v (clean_text text))) = Inr i"
    "probabilities_from 0 (predict_proba m (transform v (clean_text text))) = Inr probs"
    "LABEL_MAP i = Some (pr_prediction r)"
    "pr_text r = text" "pr_cleaned_text r = clean_text text"
    "pr_confidence r = py_round (predict_proba m (transform v (clean_text text)) ! i) 4"
    "pr_probabilities r = probs"
    "pr_key_words r = key_words_of (arith env) m v (transform v (clean_text text))"
    "snd (predict_sentiment env s text) =
       \<lparr>PREDICTION_LOG = log_append (PREDICTION_LOG s) r, clock = clock s + 3\<rparr>"
  using assms
  by (auto simp: predict_sentiment_def Let_def tick_def strip_clean_text_Nil
      split: if_splits option.splits sum.splits)

lemma predict_sentiment_succeeds:
  assumes "VECTORIZER env = Some v" "MODEL env = Some m" "clean_text text \<noteq> []"
    and "predict_proba m (transform v (clean_text text)) \<noteq> []"
    and "length (predict_proba m (transform v (clean_text text))) \<le> 3"
  shows "\<exists>r. fst (predict_sentiment env s text) = Inr r"
proof -
  let ?proba = "predict_proba m (transform v (clean_text text))"
  obtain i where i: "argmax ?proba = Inr i" using argmax_nonempty[OF assms(4)] by blast
  then have "i < length ?proba" using argmax_first_max by (auto simp: first_max_def)
  then obtain l where l: "LABEL_MAP i = Some l" using LABEL_MAP_lt[of i] assms(5) by auto
  obtain probs where p: "probabilities_from 0 ?proba = Inr probs"
    using probabilities_from_ok[of 0 ?proba] assms(5) by auto
  show ?thesis
    using assms(1,2,3) i l p
    by (simp add: predict_sentiment_def Let_def strip_clean_text_Nil)
qed

lemma log_append_length: "length (log_append entries r) = min 1000 (Suc (length entries)) \<or> 1000 < length entries"
  by (auto simp: log_append_def Let_def)

lemma log_append_le: "length entries \<le> 1000 \<Longrightarrow> length (log_append entries r) \<le> 1000"
  by (auto simp: log_append_def Let_def)

lemma log_append_drop:
  "length entries \<le> 1000 \<Longrightarrow>
     log_append entries r = drop (Suc (length entries) - 1000) (entries @ [r])"
  by (cases entries) (auto simp: log_append_def Let_def Suc_diff_le drop_Cons' )

section \<open>The small service, evaluated\<close>

lemma toy_fs: "transform toy_vectorizer t = [(0, 1 / 2), (2, 1 / 4), (3, 1 / 2), (4, 1 / 4)]"
  by (simp add: toy_vectorizer_def)

lemma toy_nonzero: "nonzero [(0, 1 / 2), (2, 1 / 4), (3, 1 / 2), (4, 1 / 4)] = [0, 2, 3, 4]"
  by (simp add: nonzero_def)


lemma toy_key_words_no_coef: "key_words_of exact_ops (toy_model\<lparr>coef := None\<rparr>) toy_vectorizer [(0, 1 / 2), (2, 1 / 4), (3, 1 / 2), (4, 1 / 4)] =
  [\<lparr>ws_word = ''good'', ws_score = 0, ws_type = ''negative''\<rparr>,
   \<lparr>ws_word = ''product'', ws_score = 0, ws_type = ''negative''\<rparr>,
   \<lparr>ws_word = ''fine'', ws_score = 0, ws_type = ''negative''\<rparr>]"
  by code_simp


section \<open>Attribution without coefficients, and the log after one call\<close>

lemma entry_at_no_coef:
  "coef m = None \<Longrightarrow>
     entry_at ar m names fs i = \<lparr>ws_word = names ! i, ws_score = 0, ws_type = ''negative''\<rparr>"
  by (simp add: entry_at_def word_entry_def net_score_def py_round_0)

text \<open>
  Claim C2, as amended. A classifier without \<^verbatim>\<open>coef_\<close> does not make the attribution
  empty: line 175 and line 176 take the coefficient 0 instead, so every single-word term
  of the term vector gets an entry with score 0 and type \<^verbatim>\<open>"negative"\<close>. What holds: when the classifier has no \<^verbatim>\<open>coef_\<close>
  and every column of the term vector is a column of the vocabulary, the attribution step
  does not fail and returns, for the single-word terms of the term vector in its order,
  cut to 8, the entry with the word, score 0 and type \<^verbatim>\<open>"negative"\<close>.
\<close>

theorem key_words_without_coef:
  assumes "coef m = None" and "\<forall>i \<in> set (nonzero fs). i < length (feature_names v)"
  shows "key_words_of ar m v fs =
           take 8 (map (\<lambda>i. \<lparr>ws_word = feature_names v ! i, ws_score = 0, ws_type = ''negative''\<rparr>)
                    (filter (single_word (feature_names v)) (nonzero fs)))"
proof -
  have ws: "well_shaped m v fs" using assms by (simp add: well_shaped_def)
  have e: "entry_at ar m (feature_names v) fs =
      (\<lambda>i. \<lparr>ws_word = feature_names v ! i, ws_score = 0, ws_type = ''negative''\<rparr>)"
    using assms(1) by (auto simp: entry_at_no_coef)
  show ?thesis
    unfolding key_words_of_ok[OF ws] e sort_key_map by (simp add: sort_key_const)
qed

text \<open>The theorem at the small service, its classifier stripped of \<^verbatim>\<open>coef_\<close>.\<close>

theorem key_words_without_coef_witness:
  "coef (toy_model\<lparr>coef := None\<rparr>) = None \<and>
   nonzero [(0, 1 / 2), (2, 1 / 4), (3, 1 / 2), (4, 1 / 4)] = [0, 2, 3, 4] \<and>
   length (feature_names toy_vectorizer) = 5 \<and>
   key_words_of exact_ops (toy_model\<lparr>coef := None\<rparr>) toy_vectorizer
     [(0, 1 / 2), (2, 1 / 4), (3, 1 / 2), (4, 1 / 4)] =
     [\<lparr>ws_word = ''good'', ws_score = 0, ws_type = ''negative''\<rparr>,
      \<lparr>ws_word = ''product'', ws_score = 0, ws_type = ''negative''\<rparr>,
      \<lparr>ws_word = ''fine'', ws_score = 0, ws_type = ''negative''\<rparr>]"
proof -
  let ?fs = "[(0, 1 / 2), (2, 1 / 4), (3, 1 / 2), (4, 1 / 4)] :: features"
  have c: "coef (toy_model\<lparr>coef := None\<rparr>) = None" by simp
  have n: "nonzero ?fs = [0, 2, 3, 4]" by (rule toy_nonzero)
  have l: "length (feature_names toy_vectorizer) = 5" by (simp add: toy_vectorizer_def)
  have b: "\<forall>i \<in> set (nonzero ?fs). i < length (feature_names toy_vectorizer)"
    by (simp add: n l)
  have "key_words_of exact_ops (toy_model\<lparr>coef := None\<rparr>) toy_vectorizer ?fs =
      take 8 (map (\<lambda>i. \<lparr>ws_word = feature_names toy_vectorizer ! i, ws_score = 0, ws_type = ''negative''\<rparr>)
        (filter (single_word (feature_names toy_vectorizer)) (nonzero ?fs)))"
    using c b by (rule key_words_without_coef)
  also have "\<dots> = [\<lparr>ws_word = ''good'', ws_score = 0, ws_type = ''negative''\<rparr>,
      \<lparr>ws_word = ''product'', ws_score = 0, ws_type = ''negative''\<rparr>,
      \<lparr>ws_word = ''fine'', ws_score = 0, ws_type = ''negative''\<rparr>]"
    by (simp add: n toy_vectorizer_def single_word_def)
  finally show ?thesis using c n l by simp
qed

text \<open>
  The claim C2 as stated fails: the classifier has no \<^verbatim>\<open>coef_\<close>, the term vector is not
  empty, and the attribution is not empty.
\<close>

theorem no_coef_key_words_not_empty:
  "coef (toy_model\<lparr>coef := None\<rparr>) = None \<and>
   transform toy_vectorizer ''good'' \<noteq> [] \<and>
   key_words_of exact_ops (toy_model\<lparr>coef := None\<rparr>) toy_vectorizer
     (transform toy_vectorizer ''good'') \<noteq> []"
  by (simp add: toy_fs toy_key_words_no_coef)

text \<open>
  Claim C3. A text whose cleaned form is empty is refused with the HTTP error 400 and the
  state is unchanged; on every failure of \<open>predict_sentiment\<close> the log is the one before
  the call; a successful call had a non-empty cleaned text and appended its one record
  (the oldest record leaves when the log held 1000 already); and with both artifacts
  loaded, a non-empty cleaned text and one to three class probabilities, the call
  succeeds.
\<close>

theorem predict_sentiment_history:
  "(clean_text text = [] \<longrightarrow> predict_sentiment env s text = (Inl (HTTPException 400), s)) \<and>
   (\<forall>e. fst (predict_sentiment env s text) = Inl e \<longrightarrow>
        PREDICTION_LOG (snd (predict_sentiment env s text)) = PREDICTION_LOG s) \<and>
   (\<forall>r. fst (predict_sentiment env s text) = Inr r \<longrightarrow>
        clean_text text \<noteq> [] \<and>
        PREDICTION_LOG (snd (predict_sentiment env s text)) =
          (if length (PREDICTION_LOG s) < 1000 then PREDICTION_LOG s @ [r]
           else tl (PREDICTION_LOG s @ [r]))) \<and>
   (\<forall>v m. VECTORIZER env = Some v \<and> MODEL env = Some m \<and> clean_text text \<noteq> [] \<and>
          predict_proba m (transform v (clean_text text)) \<noteq> [] \<and>
          length (predict_proba m (transform v (clean_text text))) \<le> 3 \<longrightarrow>
          (\<exists>r. fst (predict_sentiment env s text) = Inr r))"
proof (intro conjI allI impI)
  assume "clean_text text = []"
  then show "predict_sentiment env s text = (Inl (HTTPException 400), s)"
    by (rule predict_sentiment_empty)
next
  fix e assume "fst (predict_sentiment env s text) = Inl e"
  then show "PREDICTION_LOG (snd (predict_sentiment env s text)) = PREDICTION_LOG s"
    by (rule predict_sentiment_Inl)
next
  fix r assume r: "fst (predict_sentiment env s text) = Inr r"
  then show "clean_text text \<noteq> []" by (rule predict_sentiment_Inr)
  from r show "PREDICTION_LOG (snd (predict_sentiment env s text)) =
          (if length (PREDICTION_LOG s) < 1000 then PREDICTION_LOG s @ [r]
           else tl (PREDICTION_LOG s @ [r]))"
    by (rule predict_sentiment_Inr) (auto simp: log_append_def Let_def)
next
  fix v m
  assume "VECTORIZER env = Some v \<and> MODEL env = Some m \<and> clean_text text \<noteq> [] \<and>
          predict_proba m (transform v (clean_text text)) \<noteq> [] \<and>
          length (predict_proba m (transform v (clean_text text))) \<le> 3"
  then show "\<exists>r. fst (predict_sentiment env s text) = Inr r"
    using predict_sentiment_succeeds by blast
qed

lemma toy_clean_noise: "clean_text ''!!! ### @@@ http://x.co'' = []"
  by code_simp

lemma toy_clean_love: "clean_text ''I love this product!'' = ''i love this product''"
  by code_simp

lemma toy_proba: "predict_proba toy_model fs = [1 / 5, 7 / 10, 1 / 10]"
  by (simp add: toy_model_def)

lemma toy_env_sel: "MODEL toy_env = Some toy_model" "VECTORIZER toy_env = Some toy_vectorizer"
  by (simp_all add: toy_env_def)

text \<open>
  The theorem at the text \<^verbatim>\<open>"!!! ### @@@ http://x.co"\<close>, which is refused, and at
  \<^verbatim>\<open>"I love this product!"\<close>, which is logged.
\<close>

theorem predict_sentiment_history_witness:
  "predict_sentiment toy_env state0 ''!!! ### @@@ http://x.co'' = (Inl (HTTPException 400), state0) \<and>
   PREDICTION_LOG (snd (predict_sentiment toy_env state0 ''!!! ### @@@ http://x.co'')) = [] \<and>
   (\<exists>r. fst (predict_sentiment toy_env state0 ''I love this product!'') = Inr r \<and>
        PREDICTION_LOG (snd (predict_sentiment toy_env state0 ''I love this product!'')) = [r])"
proof -
  note a = predict_sentiment_history[of "''!!! ### @@@ http://x.co''" toy_env state0]
  note b = predict_sentiment_history[of "''I love this product!''" toy_env state0]
  from a toy_clean_noise
  have 1: "predict_sentiment toy_env state0 ''!!! ### @@@ http://x.co'' = (Inl (HTTPException 400), state0)"
    by blast
  then have 2: "PREDICTION_LOG (snd (predict_sentiment toy_env state0 ''!!! ### @@@ http://x.co'')) = []"
    by (simp add: state0_def)
  have "clean_text ''I love this product!'' \<noteq> []" by (simp add: toy_clean_love)
  with b toy_env_sel toy_proba
  obtain r where r: "fst (predict_sentiment toy_env state0 ''I love this product!'') = Inr r"
    by (metis length_Cons list.size(3) list.discI numeral_3_eq_3 order_refl)
  with b have "PREDICTION_LOG (snd (predict_sentiment toy_env state0 ''I love this product!'')) = [r]"
    by (simp add: state0_def)
  with 1 2 r show ?thesis by blast
qed

section \<open>The predicted label and the ranking of the key words\<close>

text \<open>
  Claim C5. For a successful prediction, with \<open>proba\<close> the class probabilities the
  classifier returned: the predicted label is the label of the position of the maximum of
  \<open>proba\<close>, the lowest position on a tie; the confidence is that maximum rounded to 4
  decimals; it is the entry of the predicted label in the record's probabilities, whose
  entries are the rounded probabilities in order, and no entry is larger.
\<close>

theorem predicted_label_is_argmax:
  assumes "fst (predict_sentiment env s text) = Inr r"
    and "MODEL env = Some m" and "VECTORIZER env = Some v"
  shows "\<exists>i. first_max (predict_proba m (transform v (clean_text text))) i \<and>
             LABEL_MAP i = Some (pr_prediction r) \<and>
             pr_confidence r = py_round (predict_proba m (transform v (clean_text text)) ! i) 4 \<and>
             map snd (pr_probabilities r) =
               map (\<lambda>p. py_round p 4) (predict_proba m (transform v (clean_text text))) \<and>
             map_of (pr_probabilities r) (pr_prediction r) = Some (pr_confidence r) \<and>
             (\<forall>p \<in> set (map snd (pr_probabilities r)). p \<le> pr_confidence r)"
proof -
  let ?proba = "predict_proba m (transform v (clean_text text))"
  from assms(1) obtain v' m' i probs where
    "VECTORIZER env = Some v'" "MODEL env = Some m'"
    and am': "argmax (predict_proba m' (transform v' (clean_text text))) = Inr i"
    and pf': "probabilities_from 0 (predict_proba m' (transform v' (clean_text text))) = Inr probs"
    and lab: "LABEL_MAP i = Some (pr_prediction r)"
    and conf': "pr_confidence r = py_round (predict_proba m' (transform v' (clean_text text)) ! i) 4"
    and pr: "pr_probabilities r = probs"
    by (rule predict_sentiment_Inr)
  with assms(2,3) have [simp]: "v' = v" "m' = m" by simp_all
  from am' have fm: "first_max ?proba i" by (simp add: argmax_first_max)
  from conf' have conf: "pr_confidence r = py_round (?proba ! i) 4" by simp
  from pf' have pf: "probabilities_from 0 ?proba = Inr probs" by simp
  from probabilities_from_Inr[OF pf] have len: "length probs = length ?proba"
    and el: "\<forall>j < length ?proba. snd (probs ! j) = py_round (?proba ! j) 4" by auto
  have snds: "map snd probs = map (\<lambda>p. py_round p 4) ?proba"
    by (rule nth_equalityI) (simp_all add: len el)
  have look: "map_of probs (pr_prediction r) = Some (pr_confidence r)"
    using probabilities_from_map_of[OF pf _ lab] fm conf by (simp add: first_max_def)
  have le: "\<forall>p \<in> set (map snd probs). p \<le> pr_confidence r"
  proof
    fix p assume "p \<in> set (map snd probs)"
    then obtain j where "j < length ?proba" "p = py_round (?proba ! j) 4"
      unfolding snds by (auto simp: in_set_conv_nth)
    with fm conf show "p \<le> pr_confidence r"
      by (simp add: first_max_def py_round_mono)
  qed
  from fm lab conf snds look le pr show ?thesis by blast
qed

lemma toy_first_max: "first_max [1 / 5, 7 / 10, 1 / 10] i \<Longrightarrow> i = 1"
  unfolding first_max_def
  by (auto simp: less_Suc_eq numeral_3_eq_3 nth_Cons split: nat.splits)

lemma toy_predict_love:
  "\<exists>r. fst (predict_sentiment toy_env state0 ''I love this product!'') = Inr r"
  by (rule predict_sentiment_succeeds[of _ toy_vectorizer toy_model])
     (simp_all add: toy_env_sel toy_proba toy_clean_love)

text \<open>The theorem at the small service: the second class has the largest probability.\<close>

theorem predicted_label_is_argmax_witness:
  "MODEL toy_env = Some toy_model \<and> VECTORIZER toy_env = Some toy_vectorizer \<and>
   (\<exists>r. fst (predict_sentiment toy_env state0 ''I love this product!'') = Inr r \<and>
        pr_prediction r = ''positive'' \<and> pr_confidence r = 7 / 10 \<and>
        map snd (pr_probabilities r) = [1 / 5, 7 / 10, 1 / 10])"
proof -
  obtain r where r: "fst (predict_sentiment toy_env state0 ''I love this product!'') = Inr r"
    using toy_predict_love by blast
  from predicted_label_is_argmax[OF r toy_env_sel]
  obtain i where fm: "first_max [1 / 5, 7 / 10, 1 / 10] i"
    and lab: "LABEL_MAP i = Some (pr_prediction r)"
    and conf: "pr_confidence r = py_round ([1 / 5, 7 / 10, 1 / 10] ! i) 4"
    and snds: "map snd (pr_probabilities r) = map (\<lambda>p. py_round p 4) [1 / 5, 7 / 10, 1 / 10]"
    unfolding toy_proba by blast
  from fm have i: "i = 1" by (rule toy_first_max)
  have rd: "py_round (1 / 5) 4 = 1 / 5" "py_round (7 / 10) 4 = 7 / 10" "py_round (1 / 10) 4 = 1 / 10"
    by (simp_all add: py_round_def round_half_even_def)
  from lab i have "pr_prediction r = ''positive''" by (simp add: LABEL_MAP_def)
  moreover from conf i have "pr_confidence r = 7 / 10" by (simp add: rd)
  moreover from snds have "map snd (pr_probabilities r) = [1 / 5, 7 / 10, 1 / 10]" by (simp add: rd)
  ultimately show ?thesis using r toy_env_sel by (auto intro!: exI[of _ r])
qed








section \<open>The bounded log\<close>

lemma predict_sentiment_log_le:
  assumes "length (PREDICTION_LOG s) \<le> 1000"
  shows "length (PREDICTION_LOG (snd (predict_sentiment env s text))) \<le> 1000"
proof (cases "fst (predict_sentiment env s text)")
  case (Inl e)
  then show ?thesis using assms by (simp add: predict_sentiment_Inl)
next
  case (Inr r)
  then have "PREDICTION_LOG (snd (predict_sentiment env s text)) = log_append (PREDICTION_LOG s) r"
    by (rule predict_sentiment_Inr) simp
  with assms show ?thesis by (simp add: log_append_le)
qed

lemma predict_all_log_le:
  "length (PREDICTION_LOG s) \<le> 1000 \<Longrightarrow>
     length (PREDICTION_LOG (snd (predict_all env s ts))) \<le> 1000"
proof (induction ts arbitrary: s)
  case Nil
  then show ?case by simp
next
  case (Cons t ts)
  obtain x s1 where p: "predict_sentiment env s t = (x, s1)" by (cases "predict_sentiment env s t")
  have le1: "length (PREDICTION_LOG s1) \<le> 1000"
    using predict_sentiment_log_le[OF Cons.prems, of env t] p by simp
  show ?case
  proof (cases x)
    case (Inl e)
    with p le1 show ?thesis by simp
  next
    case (Inr r)
    obtain y s2 where q: "predict_all env s1 ts = (y, s2)" by (cases "predict_all env s1 ts")
    have "length (PREDICTION_LOG s2) \<le> 1000" using Cons.IH[OF le1] q by simp
    with p Inr q show ?thesis by (cases y) simp_all
  qed
qed

lemma predict_all_Cons_Inr:
  assumes "predict_all env s (t # ts) = (Inr rs, s')"
  obtains r rs' s1 where "predict_sentiment env s t = (Inr r, s1)"
    "predict_all env s1 ts = (Inr rs', s')" "rs = r # rs'"
  using assms by (auto split: prod.splits sum.splits)

lemma predict_sentiment_pair_Inr:
  assumes "predict_sentiment env s t = (Inr r, s1)"
  shows "PREDICTION_LOG s1 = log_append (PREDICTION_LOG s) r" "pr_text r = t"
proof -
  have f: "fst (predict_sentiment env s t) = Inr r" using assms by simp
  from f have "PREDICTION_LOG (snd (predict_sentiment env s t)) = log_append (PREDICTION_LOG s) r"
    by (rule predict_sentiment_Inr) simp
  then show "PREDICTION_LOG s1 = log_append (PREDICTION_LOG s) r" using assms by simp
  from f show "pr_text r = t" by (rule predict_sentiment_Inr)
qed

lemma predict_all_Inr:
  "predict_all env s ts = (Inr rs, s') \<Longrightarrow>
     length rs = length ts \<and> map pr_text rs = ts \<and>
     PREDICTION_LOG s' = foldl log_append (PREDICTION_LOG s) rs"
proof (induction ts arbitrary: s rs)
  case Nil
  then show ?case by simp
next
  case (Cons t ts)
  from Cons.prems obtain r rs' s1 where p: "predict_sentiment env s t = (Inr r, s1)"
    and q: "predict_all env s1 ts = (Inr rs', s')" and rs: "rs = r # rs'"
    by (rule predict_all_Cons_Inr)
  from Cons.IH[OF q] predict_sentiment_pair_Inr[OF p] rs show ?case by simp
qed

lemma foldl_log_append:
  "length entries \<le> 1000 \<Longrightarrow>
     foldl log_append entries rs = drop (length entries + length rs - 1000) (entries @ rs)"
proof (induction rs arbitrary: entries)
  case Nil
  then show ?case by simp
next
  case (Cons r rs)
  let ?k = "Suc (length entries) - 1000"
  let ?l = "log_append entries r"
  have l: "?l = drop ?k (entries @ [r])" using Cons.prems by (rule log_append_drop)
  have le: "length ?l \<le> 1000" using Cons.prems by (rule log_append_le)
  have len: "length ?l = Suc (length entries) - ?k" by (simp add: l)
  have "foldl log_append entries (r # rs) = foldl log_append ?l rs" by simp
  also have "\<dots> = drop (length ?l + length rs - 1000) (?l @ rs)" using le by (rule Cons.IH)
  also have "?l @ rs = drop ?k (entries @ r # rs)" using Cons.prems by (simp add: l)
  also have "drop (length ?l + length rs - 1000) (drop ?k (entries @ r # rs)) =
      drop (length ?l + length rs - 1000 + ?k) (entries @ r # rs)"
    by (simp only: drop_drop)
  also have "length ?l + length rs - 1000 + ?k = length entries + length (r # rs) - 1000"
    using Cons.prems by (cases "length entries = 1000") (simp_all add: len)
  finally show ?case .
qed

lemma toy_clean_good: "clean_text ''good'' = ''good''"
  by code_simp

lemma toy_predict_good: "\<exists>r s'. predict_sentiment toy_env s ''good'' = (Inr r, s')"
proof -
  have "\<exists>r. fst (predict_sentiment toy_env s ''good'') = Inr r"
    by (rule predict_sentiment_succeeds[of _ toy_vectorizer toy_model])
       (simp_all add: toy_env_sel toy_proba toy_clean_good)
  then show ?thesis by (metis prod.collapse)
qed

lemma toy_predict_all_good: "\<exists>rs s'. predict_all toy_env s (replicate n ''good'') = (Inr rs, s')"
proof (induction n arbitrary: s)
  case 0
  show ?case by simp
next
  case (Suc n)
  obtain r s1 where "predict_sentiment toy_env s ''good'' = (Inr r, s1)"
    using toy_predict_good by blast
  moreover obtain rs s2 where "predict_all toy_env s1 (replicate n ''good'') = (Inr rs, s2)"
    using Suc by blast
  ultimately show ?case by simp
qed

text \<open>
  Claim C4. When the log holds at most 1000 records before a call (it is empty at
  startup), it holds at most 1000 after a single prediction, after any run of
  predictions, after a batch, after a comparison and after the statistics. After a run
  of successful predictions the log is the end of the old log followed by the new
  records, in order, cut at the front to 1000. After 1001 successful predictions on an
  empty log, the log is the list of their records without the first, and its length is
  1000.
\<close>

theorem prediction_log_bounded:
  assumes "length (PREDICTION_LOG s) \<le> 1000"
  shows "length (PREDICTION_LOG (snd (predict_sentiment env s text))) \<le> 1000 \<and>
         length (PREDICTION_LOG (snd (predict env s text))) \<le> 1000 \<and>
         length (PREDICTION_LOG (snd (predict_all env s texts))) \<le> 1000 \<and>
         length (PREDICTION_LOG (snd (predict_batch env s texts))) \<le> 1000 \<and>
         length (PREDICTION_LOG (snd (compare env s text text_b))) \<le> 1000 \<and>
         length (PREDICTION_LOG (snd (get_stats env s))) \<le> 1000 \<and>
         (\<forall>rs s'. predict_all env s texts = (Inr rs, s') \<longrightarrow>
            PREDICTION_LOG s' =
              drop (length (PREDICTION_LOG s) + length texts - 1000) (PREDICTION_LOG s @ rs)) \<and>
         (\<forall>rs s'. PREDICTION_LOG s = [] \<and> length texts = 1001 \<and>
                  predict_all env s texts = (Inr rs, s') \<longrightarrow>
            PREDICTION_LOG s' = tl rs \<and> length (PREDICTION_LOG s') = 1000)"
proof -
  have 1: "length (PREDICTION_LOG (snd (predict_sentiment env s text))) \<le> 1000"
    using assms by (rule predict_sentiment_log_le)
  have 2: "length (PREDICTION_LOG (snd (predict env s text))) \<le> 1000"
    using assms 1 by (simp add: predict_def)
  have 3: "length (PREDICTION_LOG (snd (predict_all env s texts))) \<le> 1000"
    using assms by (rule predict_all_log_le)
  have t: "length (PREDICTION_LOG (tick s)) \<le> 1000" using assms by (simp add: tick_def)
  have 4: "length (PREDICTION_LOG (snd (predict_batch env s texts))) \<le> 1000"
    using assms predict_all_log_le[OF t, of env texts]
    by (auto simp: predict_batch_def Let_def tick_def split: prod.splits sum.splits)
  have 5: "length (PREDICTION_LOG (snd (compare env s text text_b))) \<le> 1000"
  proof -
    obtain x s1 where p: "predict_sentiment env s text = (x, s1)"
      by (cases "predict_sentiment env s text")
    have le1: "length (PREDICTION_LOG s1) \<le> 1000" using 1 p by simp
    obtain y s2 where q: "predict_sentiment env s1 text_b = (y, s2)"
      by (cases "predict_sentiment env s1 text_b")
    have le2: "length (PREDICTION_LOG s2) \<le> 1000"
      using predict_sentiment_log_le[OF le1, of env text_b] q by simp
    show ?thesis
      using assms p q le1 le2 by (auto simp: compare_def split: sum.splits)
  qed
  have 6: "length (PREDICTION_LOG (snd (get_stats env s))) \<le> 1000"
    using assms by (simp add: get_stats_def Let_def)
  have 7: "PREDICTION_LOG s' =
      drop (length (PREDICTION_LOG s) + length texts - 1000) (PREDICTION_LOG s @ rs)"
    if "predict_all env s texts = (Inr rs, s')" for rs s'
    using predict_all_Inr[OF that] foldl_log_append[OF assms, of rs] by simp
  have 8: "PREDICTION_LOG s' = tl rs \<and> length (PREDICTION_LOG s') = 1000"
    if "PREDICTION_LOG s = [] \<and> length texts = 1001 \<and> predict_all env s texts = (Inr rs, s')"
    for rs s'
  proof -
    from that have a: "predict_all env s texts = (Inr rs, s')" by simp
    from predict_all_Inr[OF a] that have "length rs = 1001" by simp
    with 7[OF a] that show ?thesis by (simp add: drop_Suc)
  qed
  from 1 2 3 4 5 6 7 8 show ?thesis by blast
qed

text \<open>The theorem at the small service: 1001 predictions of the same text from startup.\<close>

theorem prediction_log_bounded_witness:
  "length (PREDICTION_LOG state0) \<le> 1000 \<and> PREDICTION_LOG state0 = [] \<and>
   length (replicate 1001 ''good'') = 1001 \<and>
   (\<exists>rs s'. predict_all toy_env state0 (replicate 1001 ''good'') = (Inr rs, s') \<and>
            PREDICTION_LOG s' = tl rs \<and> length (PREDICTION_LOG s') = 1000)"
proof -
  have e: "PREDICTION_LOG state0 = []" by (simp add: state0_def)
  then have le: "length (PREDICTION_LOG state0) \<le> 1000" by simp
  obtain rs s' where a: "predict_all toy_env state0 (replicate 1001 ''good'') = (Inr rs, s')"
    using toy_predict_all_good by blast
  have n: "length (replicate 1001 ''good'') = 1001" by simp
  from prediction_log_bounded[OF le, of toy_env _ "replicate 1001 ''good''"] e n a
  have "PREDICTION_LOG s' = tl rs \<and> length (PREDICTION_LOG s') = 1000" by blast
  with e le n a show ?thesis by blast
qed

section \<open>Comparison, statistics and batches\<close>






lemma word_env_sel: "MODEL word_env = Some word_model" "VECTORIZER word_env = Some word_vectorizer"
  by (simp_all add: word_env_def)

lemma word_clean: "clean_text ''good'' = ''good''" "clean_text ''bad'' = ''bad''"
  by code_simp+

lemma word_proba:
  "predict_proba word_model (transform word_vectorizer ''good'') = [1 / 5, 7 / 10, 1 / 10]"
  "predict_proba word_model (transform word_vectorizer ''bad'') = [7 / 10, 1 / 5, 1 / 10]"
  by (simp_all add: word_model_def word_vectorizer_def)









lemma predict_all_chain:
  "predict_all env s ts = (Inr rs, s') \<Longrightarrow>
     \<exists>ss. length ss = Suc (length ts) \<and> ss ! 0 = s \<and> ss ! length ts = s' \<and>
          (\<forall>i < length ts. predict_sentiment env (ss ! i) (ts ! i) = (Inr (rs ! i), ss ! Suc i) \<and>
                            pr_text (rs ! i) = ts ! i)"
proof (induction ts arbitrary: s rs)
  case Nil
  then show ?case by (auto intro: exI[of _ "[s]"])
next
  case (Cons t ts)
  from Cons.prems obtain r rs' s1 where p: "predict_sentiment env s t = (Inr r, s1)"
    and q: "predict_all env s1 ts = (Inr rs', s')" and rs: "rs = r # rs'"
    by (rule predict_all_Cons_Inr)
  from Cons.IH[OF q] obtain ss where ss: "length ss = Suc (length ts)" "ss ! 0 = s1"
    "ss ! length ts = s'"
    "\<forall>i < length ts. predict_sentiment env (ss ! i) (ts ! i) = (Inr (rs' ! i), ss ! Suc i) \<and>
                      pr_text (rs' ! i) = ts ! i"
    by blast
  have t: "pr_text r = t" using p by (rule predict_sentiment_pair_Inr)
  have "length (s # ss) = Suc (length (t # ts)) \<and> (s # ss) ! 0 = s \<and>
        (s # ss) ! length (t # ts) = s' \<and>
        (\<forall>i < length (t # ts).
           predict_sentiment env ((s # ss) ! i) ((t # ts) ! i) = (Inr (rs ! i), (s # ss) ! Suc i) \<and>
           pr_text (rs ! i) = (t # ts) ! i)"
    using ss p rs t by (auto simp: nth_Cons split: nat.splits)
  then show ?case by blast
qed

lemma predict_all_append_fail:
  "predict_all env s pre = (Inr rs, s1) \<Longrightarrow> predict_sentiment env s1 t = (Inl e, s2) \<Longrightarrow>
     predict_all env s (pre @ t # post) = (Inl e, s2)"
proof (induction pre arbitrary: s rs)
  case Nil
  then show ?case by simp
next
  case (Cons a pre)
  from Cons.prems(1) obtain r rs' s0 where p: "predict_sentiment env s a = (Inr r, s0)"
    and q: "predict_all env s0 pre = (Inr rs', s1)"
    by (rule predict_all_Cons_Inr)
  from Cons.IH[OF q Cons.prems(2)] p show ?case by simp
qed

lemma predict_all_total:
  "(\<exists>rs s'. predict_all env s ts = (Inr rs, s')) \<or>
   (\<exists>pre t post rs s1 e s2. ts = pre @ t # post \<and> predict_all env s pre = (Inr rs, s1) \<and>
      predict_sentiment env s1 t = (Inl e, s2))"
proof (induction ts arbitrary: s)
  case Nil
  show ?case by simp
next
  case (Cons a ts)
  obtain x s0 where p: "predict_sentiment env s a = (x, s0)" by (cases "predict_sentiment env s a")
  show ?case
  proof (cases x)
    case (Inl e)
    with p have "a # ts = [] @ a # ts \<and> predict_all env s [] = (Inr [], s) \<and>
        predict_sentiment env s a = (Inl e, s0)" by simp
    then show ?thesis by blast
  next
    case (Inr r)
    from Cons.IH[of s0] show ?thesis
    proof
      assume "\<exists>rs s'. predict_all env s0 ts = (Inr rs, s')"
      with p Inr show ?thesis by auto
    next
      assume "\<exists>pre t post rs s1 e s2. ts = pre @ t # post \<and>
          predict_all env s0 pre = (Inr rs, s1) \<and> predict_sentiment env s1 t = (Inl e, s2)"
      then obtain pre t post rs s1 e s2 where "ts = pre @ t # post"
        "predict_all env s0 pre = (Inr rs, s1)" "predict_sentiment env s1 t = (Inl e, s2)"
        by blast
      with p Inr have "a # ts = (a # pre) @ t # post \<and>
          predict_all env s (a # pre) = (Inr (r # rs), s1) \<and>
          predict_sentiment env s1 t = (Inl e, s2)" by simp
      then show ?thesis by blast
    qed
  qed
qed

lemma predict_batch_unfold:
  assumes "1 \<le> length texts" "length texts \<le> 50" "MODEL env \<noteq> None"
  shows "predict_batch env s texts =
           (case predict_all env (tick s) texts of
              (Inl e, s2) \<Rightarrow> (Inl e, s2)
            | (Inr results, s2) \<Rightarrow>
                (Inr (results,
                      py_round ((perf_counter env (clock s2) - perf_counter env (clock s)) * 1000) 2),
                 tick s2))"
  using assms by (auto simp: predict_batch_def Let_def split: prod.splits sum.splits)

text \<open>
  Claim C9. For 1 to 50 texts and a loaded model: when the batch returns, it returns one
  record per text, record \<open>i\<close> being the record of text \<open>i\<close>, and there are states, from the
  one after the first clock read on, such that prediction \<open>i\<close> ran once on state \<open>i\<close> and
  text \<open>i\<close> and gave record \<open>i\<close> and state \<open>i + 1\<close>. When the texts before \<open>t\<close> succeed and \<open>t\<close>
  fails, the batch fails with the error of \<open>t\<close>, in the state where \<open>t\<close> left it, and no
  record is returned. One of the two happens.
\<close>

theorem predict_batch_in_order:
  assumes "1 \<le> length texts" and "length texts \<le> 50" and "MODEL env \<noteq> None"
  shows "(\<forall>rs total s'. predict_batch env s texts = (Inr (rs, total), s') \<longrightarrow>
            length rs = length texts \<and>
            (\<exists>ss. length ss = Suc (length texts) \<and> ss ! 0 = tick s \<and>
                  tick (ss ! length texts) = s' \<and>
                  (\<forall>i < length texts.
                     predict_sentiment env (ss ! i) (texts ! i) = (Inr (rs ! i), ss ! Suc i) \<and>
                     pr_text (rs ! i) = texts ! i))) \<and>
         (\<forall>pre t post rs s1 e s2.
            texts = pre @ t # post \<and> predict_all env (tick s) pre = (Inr rs, s1) \<and>
            predict_sentiment env s1 t = (Inl e, s2) \<longrightarrow>
            predict_batch env s texts = (Inl e, s2)) \<and>
         ((\<exists>rs total s'. predict_batch env s texts = (Inr (rs, total), s')) \<or>
          (\<exists>pre t post rs s1 e s2.
             texts = pre @ t # post \<and> predict_all env (tick s) pre = (Inr rs, s1) \<and>
             predict_sentiment env s1 t = (Inl e, s2)))"
proof (intro conjI allI impI)
  fix rs total s'
  assume b: "predict_batch env s texts = (Inr (rs, total), s')"
  obtain x s2 where a: "predict_all env (tick s) texts = (x, s2)"
    by (cases "predict_all env (tick s) texts")
  from b a have x: "x = Inr rs" and s': "s' = tick s2"
    unfolding predict_batch_unfold[OF assms] by (cases x; simp)+
  from a x have a': "predict_all env (tick s) texts = (Inr rs, s2)" by simp
  from predict_all_Inr[OF a'] show "length rs = length texts" by simp
  from predict_all_chain[OF a'] s'
  show "\<exists>ss. length ss = Suc (length texts) \<and> ss ! 0 = tick s \<and>
             tick (ss ! length texts) = s' \<and>
             (\<forall>i < length texts.
                predict_sentiment env (ss ! i) (texts ! i) = (Inr (rs ! i), ss ! Suc i) \<and>
                pr_text (rs ! i) = texts ! i)"
    by blast
next
  fix pre t post rs s1 e s2
  assume "texts = pre @ t # post \<and> predict_all env (tick s) pre = (Inr rs, s1) \<and>
          predict_sentiment env s1 t = (Inl e, s2)"
  then have "predict_all env (tick s) texts = (Inl e, s2)"
    using predict_all_append_fail by blast
  then show "predict_batch env s texts = (Inl e, s2)"
    unfolding predict_batch_unfold[OF assms] by simp
next
  from predict_all_total[of env "tick s" texts]
  show "(\<exists>rs total s'. predict_batch env s texts = (Inr (rs, total), s')) \<or>
        (\<exists>pre t post rs s1 e s2.
           texts = pre @ t # post \<and> predict_all env (tick s) pre = (Inr rs, s1) \<and>
           predict_sentiment env s1 t = (Inl e, s2))"
  proof
    assume "\<exists>rs s'. predict_all env (tick s) texts = (Inr rs, s')"
    then obtain rs s2 where "predict_all env (tick s) texts = (Inr rs, s2)" by blast
    then have "\<exists>total s'. predict_batch env s texts = (Inr (rs, total), s')"
      unfolding predict_batch_unfold[OF assms] by simp
    then show ?thesis by blast
  next
    assume "\<exists>pre t post rs s1 e s2. texts = pre @ t # post \<and>
        predict_all env (tick s) pre = (Inr rs, s1) \<and> predict_sentiment env s1 t = (Inl e, s2)"
    then show ?thesis by blast
  qed
qed

lemma word_clean_noise: "clean_text ''!!!'' = []"
  by code_simp

lemma word_batch_good_bad:
  "map pr_text (projr (fst (predict_all word_env (tick state0) [''good'', ''bad'']))) =
     [''good'', ''bad''] \<and>
   isl (fst (predict_all word_env (tick state0) [''good'', ''bad''])) = False"
  by code_simp

lemma word_predict_good:
  "\<exists>r s1. predict_all word_env s [''good''] = (Inr [r], s1)"
proof -
  have "\<exists>r. fst (predict_sentiment word_env s ''good'') = Inr r"
    by (rule predict_sentiment_succeeds[of _ word_vectorizer word_model])
       (simp_all add: word_env_sel word_proba word_clean)
  then obtain r s1 where "predict_sentiment word_env s ''good'' = (Inr r, s1)"
    by (metis prod.collapse)
  then show ?thesis by simp
qed

text \<open>
  The theorem at the two-word service: a batch of two texts, and a batch whose second
  text cleans to the empty string.
\<close>

theorem predict_batch_in_order_witness:
  "1 \<le> length [''good'', ''bad''] \<and> length [''good'', ''bad''] \<le> 50 \<and>
   length [''good'', ''!!!'', ''bad''] \<le> 50 \<and> MODEL word_env \<noteq> None \<and>
   (\<exists>rs total s'. predict_batch word_env state0 [''good'', ''bad''] = (Inr (rs, total), s') \<and>
                  length rs = 2 \<and> pr_text (rs ! 0) = ''good'' \<and> pr_text (rs ! 1) = ''bad'') \<and>
   (\<exists>s2. predict_batch word_env state0 [''good'', ''!!!'', ''bad''] =
           (Inl (HTTPException 400), s2))"
proof -
  have m: "MODEL word_env \<noteq> None" by (simp add: word_env_sel)
  have h: "1 \<le> length [''good'', ''bad'']" "length [''good'', ''bad''] \<le> 50"
    "1 \<le> length [''good'', ''!!!'', ''bad'']" "length [''good'', ''!!!'', ''bad''] \<le> 50"
    by simp_all
  note ok = predict_batch_in_order[OF h(1,2) m, of state0]
  note ko = predict_batch_in_order[OF h(3,4) m, of state0]
  have "\<not> (\<exists>pre t post rs s1 e s2. [''good'', ''bad''] = pre @ t # post \<and>
      predict_all word_env (tick state0) pre = (Inr rs, s1) \<and>
      predict_sentiment word_env s1 t = (Inl e, s2))"
  proof
    assume "\<exists>pre t post rs s1 e s2. [''good'', ''bad''] = pre @ t # post \<and>
      predict_all word_env (tick state0) pre = (Inr rs, s1) \<and>
      predict_sentiment word_env s1 t = (Inl e, s2)"
    then obtain pre t post rs s1 e s2 where "[''good'', ''bad''] = pre @ t # post"
      "predict_all word_env (tick state0) pre = (Inr rs, s1)"
      "predict_sentiment word_env s1 t = (Inl e, s2)" by blast
    then have "predict_all word_env (tick state0) [''good'', ''bad''] = (Inl e, s2)"
      using predict_all_append_fail by metis
    with word_batch_good_bad show False by simp
  qed
  with ok obtain rs total s' where
    b: "predict_batch word_env state0 [''good'', ''bad''] = (Inr (rs, total), s')"
    by blast
  with ok have len: "length rs = 2"
    and "\<exists>ss. \<forall>i < 2. pr_text (rs ! i) = [''good'', ''bad''] ! i"
    by (auto simp: numeral_2_eq_2)
  then have t0: "pr_text (rs ! 0) = ''good''" and t1: "pr_text (rs ! 1) = ''bad''"
    by (auto simp: numeral_2_eq_2)
  obtain r s1 where p: "predict_all word_env (tick state0) [''good''] = (Inr [r], s1)"
    using word_predict_good by blast
  have f: "predict_sentiment word_env s1 ''!!!'' = (Inl (HTTPException 400), s1)"
    by (simp add: predict_sentiment_empty word_clean_noise)
  have "[''good'', ''!!!'', ''bad''] = [''good''] @ ''!!!'' # [''bad'']" by simp
  with ko p f have "predict_batch word_env state0 [''good'', ''!!!'', ''bad''] =
      (Inl (HTTPException 400), s1)" by blast
  with b len t0 t1 m h show ?thesis by blast
qed

text \<open>
  Claim C10. In a batch of at most 50 texts on a loaded model, when the texts before \<open>t\<close>
  succeed with the records \<open>rs\<close> and \<open>t\<close> fails, the batch returns the error and no record,
  and the log it leaves is the log before the batch followed by \<open>rs\<close> (cut at the front to
  1000): the records of the texts before the failing one stay in the log.
\<close>

theorem predict_batch_not_atomic:
  assumes "length (pre @ t # post) \<le> 50" and "MODEL env \<noteq> None"
    and "length (PREDICTION_LOG s) \<le> 1000"
    and "predict_all env (tick s) pre = (Inr rs, s1)"
    and "predict_sentiment env s1 t = (Inl e, s2)"
  shows "predict_batch env s (pre @ t # post) = (Inl e, s2) \<and>
         length rs = length pre \<and> map pr_text rs = pre \<and>
         PREDICTION_LOG s2 =
           drop (length (PREDICTION_LOG s) + length pre - 1000) (PREDICTION_LOG s @ rs) \<and>
         (length (PREDICTION_LOG s) + length pre \<le> 1000 \<longrightarrow>
            PREDICTION_LOG s2 = PREDICTION_LOG s @ rs)"
proof -
  have one: "1 \<le> length (pre @ t # post)" by simp
  have "predict_all env (tick s) (pre @ t # post) = (Inl e, s2)"
    using assms(4,5) by (rule predict_all_append_fail)
  then have b: "predict_batch env s (pre @ t # post) = (Inl e, s2)"
    unfolding predict_batch_unfold[OF one assms(1,2)] by simp
  from predict_all_Inr[OF assms(4)] have len: "length rs = length pre"
    and texts_eq: "map pr_text rs = pre"
    and lg: "PREDICTION_LOG s1 = foldl log_append (PREDICTION_LOG s) rs"
    by (simp_all add: tick_def)
  have "PREDICTION_LOG s2 = PREDICTION_LOG s1"
    using predict_sentiment_Inl[of env s1 t e] assms(5) by simp
  with lg foldl_log_append[OF assms(3), of rs] len
  have d: "PREDICTION_LOG s2 =
      drop (length (PREDICTION_LOG s) + length pre - 1000) (PREDICTION_LOG s @ rs)" by simp
  from b len texts_eq d show ?thesis by simp
qed

text \<open>
  The theorem at the two-word service: the batch fails at its second text and the record
  of the first is in the log.
\<close>

theorem predict_batch_not_atomic_witness:
  "length ([''good''] @ ''!!!'' # [''bad'']) \<le> 50 \<and> MODEL word_env \<noteq> None \<and>
   length (PREDICTION_LOG state0) \<le> 1000 \<and>
   (\<exists>r s2. predict_batch word_env state0 ([''good''] @ ''!!!'' # [''bad'']) =
             (Inl (HTTPException 400), s2) \<and>
           PREDICTION_LOG s2 = [r] \<and> pr_text r = ''good'')"
proof -
  have m: "MODEL word_env \<noteq> None" by (simp add: word_env_sel)
  have l: "length ([''good''] @ ''!!!'' # [''bad'']) \<le> 50" by simp
  have z: "length (PREDICTION_LOG state0) \<le> 1000" "PREDICTION_LOG state0 = []"
    by (simp_all add: state0_def)
  obtain r s1 where p: "predict_all word_env (tick state0) [''good''] = (Inr [r], s1)"
    using word_predict_good by blast
  have f: "predict_sentiment word_env s1 ''!!!'' = (Inl (HTTPException 400), s1)"
    by (simp add: predict_sentiment_empty word_clean_noise)
  from predict_batch_not_atomic[OF l m z(1) p f] z(2)
  have "predict_batch word_env state0 ([''good''] @ ''!!!'' # [''bad'']) =
          (Inl (HTTPException 400), s1) \<and> PREDICTION_LOG s1 = [r] \<and> pr_text r = ''good''"
    by simp
  with l m z(1) show ?thesis by blast
qed

end
